theory Spec2Isabelle
  imports Main "HOL-Library.AList"
begin

section \<open>Payloads and the Python operations applied to them\<close>

text \<open>
  The Tableau REST and metadata APIs answer with JSON. The GraphQL query of
  \<^verbatim>\<open>workbook_graphql_query\<close> selects string scalars, lists and objects only, so a payload
  is \<^verbatim>\<open>None\<close>, a \<^verbatim>\<open>str\<close>, a \<^verbatim>\<open>list\<close> or a \<^verbatim>\<open>dict\<close> with string keys. A dict is
  an association list in insertion order; lookup takes the first binding of a key.
\<close>

datatype json = JNull | JStr string | JList "json list" | JDict "(string \<times> json) list"

datatype error =
  HTTPError | JSONDecodeError | KeyError | TypeError | AttributeError | IndexError

text \<open>Truth value of a payload in a condition (\<^verbatim>\<open>if view_id:\<close>).\<close>

fun truthy :: "json \<Rightarrow> bool" where
  "truthy JNull = False"
| "truthy (JStr s) = (s \<noteq> [])"
| "truthy (JList xs) = (xs \<noteq> [])"
| "truthy (JDict d) = (d \<noteq> [])"

text \<open>Only \<^verbatim>\<open>None\<close> and strings can be dictionary keys; lists and dicts are unhashable.\<close>

fun hashable :: "json \<Rightarrow> bool" where
  "hashable JNull = True"
| "hashable (JStr s) = True"
| "hashable (JList xs) = False"
| "hashable (JDict d) = False"

text \<open>Subscription with a string key, \<^verbatim>\<open>x["k"]\<close>.\<close>

fun getitem :: "json \<Rightarrow> string \<Rightarrow> error + json" where
  "getitem (JDict d) k = (case map_of d k of None \<Rightarrow> Inl KeyError | Some v \<Rightarrow> Inr v)"
| "getitem (JList xs) k = Inl TypeError"
| "getitem (JStr s) k = Inl TypeError"
| "getitem JNull k = Inl TypeError"

text \<open>Subscription with index zero, \<^verbatim>\<open>x[0]\<close>. A dict with string keys has no key \<^verbatim>\<open>0\<close>.\<close>

fun getitem0 :: "json \<Rightarrow> error + json" where
  "getitem0 (JList []) = Inl IndexError"
| "getitem0 (JList (x # xs)) = Inr x"
| "getitem0 (JStr []) = Inl IndexError"
| "getitem0 (JStr (c # cs)) = Inr (JStr [c])"
| "getitem0 (JDict d) = Inl KeyError"
| "getitem0 JNull = Inl TypeError"

text \<open>\<^verbatim>\<open>x.get(k, default)\<close>: only a dict has the method.\<close>

fun get_default :: "json \<Rightarrow> string \<Rightarrow> json \<Rightarrow> error + json" where
  "get_default (JDict d) k dflt = Inr (case map_of d k of None \<Rightarrow> dflt | Some v \<Rightarrow> v)"
| "get_default (JList xs) k dflt = Inl AttributeError"
| "get_default (JStr s) k dflt = Inl AttributeError"
| "get_default JNull k dflt = Inl AttributeError"

text \<open>
  The elements a \<^verbatim>\<open>for\<close> loop visits: the items of a list, the characters of a string,
  the keys of a dict; \<^verbatim>\<open>None\<close> is not iterable.
\<close>

fun iter :: "json \<Rightarrow> error + json list" where
  "iter (JList xs) = Inr xs"
| "iter (JStr s) = Inr (map (\<lambda>c. JStr [c]) s)"
| "iter (JDict d) = Inr (map (\<lambda>kv. JStr (fst kv)) d)"
| "iter JNull = Inl TypeError"

text \<open>Chained subscription \<^verbatim>\<open>x["a"]["b"]\<close>.\<close>

fun getpath :: "json \<Rightarrow> string list \<Rightarrow> error + json" where
  "getpath x [] = Inr x"
| "getpath x (k # ks) = (case getitem x k of Inl e \<Rightarrow> Inl e | Inr y \<Rightarrow> getpath y ks)"

text \<open>A \<^verbatim>\<open>for\<close> loop over a list whose body updates local state and may raise.\<close>

fun for_each :: "('s \<Rightarrow> 'a \<Rightarrow> error + 's) \<Rightarrow> 's \<Rightarrow> 'a list \<Rightarrow> error + 's" where
  "for_each f s [] = Inr s"
| "for_each f s (x # xs) = (case f s x of Inl e \<Rightarrow> Inl e | Inr s' \<Rightarrow> for_each f s' xs)"

text \<open>A list comprehension whose element expression may raise.\<close>

fun comprehension :: "('a \<Rightarrow> error + 'b) \<Rightarrow> 'a list \<Rightarrow> error + 'b list" where
  "comprehension f [] = Inr []"
| "comprehension f (x # xs) =
     (case f x of Inl e \<Rightarrow> Inl e
      | Inr y \<Rightarrow> (case comprehension f xs of Inl e \<Rightarrow> Inl e | Inr ys \<Rightarrow> Inr (y # ys)))"

section \<open>Content data\<close>

datatype TableauContentType = WORKBOOK | VIEW | DATA_SOURCE

record TableauContentData =
  content_type :: TableauContentType
  properties :: json

text \<open>The three dictionaries keep insertion order, which \<^verbatim>\<open>values()\<close> follows.\<close>

record TableauWorkspaceData =
  site_name :: string
  workbooks_by_id :: "(json \<times> TableauContentData) list"
  views_by_id :: "(json \<times> TableauContentData) list"
  data_sources_by_id :: "(json \<times> TableauContentData) list"

section \<open>The client\<close>

text \<open>
  A request is identified by its endpoint, the value of the \<^verbatim>\<open>X-tableau-auth\<close> header
  and the parameters the client puts into the URL or the body. The signed JWT of the
  sign-in body depends on the clock and a random identifier and is left out.
\<close>

datatype request =
  SigninRequest string
| SignoutRequest json
| WorkbooksRequest json json
| WorkbookQuery json json

text \<open>
  The remote site: given the requests made so far and a new request it either fails
  (\<^verbatim>\<open>requests.request\<close> or \<^verbatim>\<open>raise_for_status\<close> raises) or answers with a body, which is
  \<open>None\<close> when the body is not JSON.
\<close>

type_synonym remote = "request list \<Rightarrow> request \<Rightarrow> error + json option"

record BaseTableauClient =
  client_site_name :: string
  api_token :: json
  site_id :: json
  get_workbooks_cache :: "json option"
  get_workbook_cache :: "(json \<times> json) list"

definition make_request ::
  "remote \<Rightarrow> request \<Rightarrow> request list \<Rightarrow> (error + json option) \<times> request list" where
  "make_request srv req log = (srv log req, log @ [req])"

definition fetch_json ::
  "remote \<Rightarrow> request \<Rightarrow> request list \<Rightarrow> (error + json) \<times> request list" where
  "fetch_json srv req log =
     (case make_request srv req log of
        (Inl e, log') \<Rightarrow> (Inl e, log')
      | (Inr None, log') \<Rightarrow> (Inl JSONDecodeError, log')
      | (Inr (Some j), log') \<Rightarrow> (Inr j, log'))"

text \<open>
  Modelled from the spec: \<^verbatim>\<open>cached_method\<close> (not among the sources), the decorator of
  \<^verbatim>\<open>get_workbooks\<close> and \<^verbatim>\<open>get_workbook\<close>. The spec describes it as a per-call
  memoization keyed by the call arguments, held in a map that the fetcher instance
  owns: a call whose arguments are memoized returns the stored result without running
  the method; a result is stored when the method returns, not when it raises; the
  arguments must be hashable. The spec has the map cleared on session end. The
  decorator cannot do that, it does not know of sessions: clearing is left to
  \<^verbatim>\<open>sign_out\<close>, which is among the sources and is modelled as it is written.
\<close>

definition get_workbooks ::
  "remote \<Rightarrow> BaseTableauClient \<Rightarrow> request list
     \<Rightarrow> (error + json) \<times> BaseTableauClient \<times> request list" where
  "get_workbooks srv c log =
     (case get_workbooks_cache c of
        Some r \<Rightarrow> (Inr r, c, log)
      | None \<Rightarrow>
          (case fetch_json srv (WorkbooksRequest (api_token c) (site_id c)) log of
             (Inl e, log') \<Rightarrow> (Inl e, c, log')
           | (Inr r, log') \<Rightarrow> (Inr r, c\<lparr>get_workbooks_cache := Some r\<rparr>, log')))"

text \<open>
  Modelled from the spec: the same memoization of \<^verbatim>\<open>cached_method\<close> for
  \<^verbatim>\<open>get_workbook\<close>, keyed by the workbook id.
\<close>

definition get_workbook ::
  "remote \<Rightarrow> json \<Rightarrow> BaseTableauClient \<Rightarrow> request list
     \<Rightarrow> (error + json) \<times> BaseTableauClient \<times> request list" where
  "get_workbook srv workbook_id c log =
     (if \<not> hashable workbook_id then (Inl TypeError, c, log)
      else case map_of (get_workbook_cache c) workbook_id of
        Some r \<Rightarrow> (Inr r, c, log)
      | None \<Rightarrow>
          (case fetch_json srv (WorkbookQuery (api_token c) workbook_id) log of
             (Inl e, log') \<Rightarrow> (Inl e, c, log')
           | (Inr r, log') \<Rightarrow>
               (Inr r, c\<lparr>get_workbook_cache := get_workbook_cache c @ [(workbook_id, r)]\<rparr>,
                log')))"

text \<open>
  \<^verbatim>\<open>sign_in\<close> assigns the token first and the site id second, so a response without a
  site id leaves the token assigned.
\<close>

definition sign_in ::
  "remote \<Rightarrow> BaseTableauClient \<Rightarrow> request list
     \<Rightarrow> (error + json) \<times> BaseTableauClient \<times> request list" where
  "sign_in srv c log =
     (case fetch_json srv (SigninRequest (client_site_name c)) log of
        (Inl e, log') \<Rightarrow> (Inl e, c, log')
      | (Inr response, log') \<Rightarrow>
          (case getpath response [''credentials'', ''token''] of
             Inl e \<Rightarrow> (Inl e, c, log')
           | Inr tok \<Rightarrow>
               (case getpath response [''credentials'', ''site'', ''id''] of
                  Inl e \<Rightarrow> (Inl e, c\<lparr>api_token := tok\<rparr>, log')
                | Inr sid \<Rightarrow> (Inr response, c\<lparr>api_token := tok, site_id := sid\<rparr>, log'))))"

definition sign_out ::
  "remote \<Rightarrow> BaseTableauClient \<Rightarrow> request list
     \<Rightarrow> (error + unit) \<times> BaseTableauClient \<times> request list" where
  "sign_out srv c log =
     (case make_request srv (SignoutRequest (api_token c)) log of
        (Inl e, log') \<Rightarrow> (Inl e, c, log')
      | (Inr b, log') \<Rightarrow> (Inr (), c\<lparr>api_token := JNull, site_id := JNull\<rparr>, log'))"

section \<open>The workspace resource\<close>

record BaseTableauWorkspace =
  ws_site_name :: string
  client :: "BaseTableauClient option"

text \<open>
  \<^verbatim>\<open>build_client\<close> of both subclasses constructs a client with no token, no site id and
  nothing cached; they differ in the base URL only.
\<close>

definition build_client :: "BaseTableauWorkspace \<Rightarrow> BaseTableauClient" where
  "build_client ws =
     \<lparr>client_site_name = ws_site_name ws, api_token = JNull, site_id = JNull,
      get_workbooks_cache = None, get_workbook_cache = []\<rparr>"

text \<open>\<^verbatim>\<open>if not self._client: self.build_client()\<close>, then \<^verbatim>\<open>self._client\<close>.\<close>

definition ensure_client :: "BaseTableauWorkspace \<Rightarrow> BaseTableauClient" where
  "ensure_client ws = (case client ws of None \<Rightarrow> build_client ws | Some c \<Rightarrow> c)"

text \<open>
  \<^verbatim>\<open>get_client\<close> is a generator-based context manager without \<^verbatim>\<open>try\<close>: entering runs
  up to the \<^verbatim>\<open>yield\<close>; an exception of the body is thrown into the generator at the
  \<^verbatim>\<open>yield\<close> and leaves it there; only a body that returns lets the generator run on to
  \<^verbatim>\<open>sign_out\<close>. The body of the \<^verbatim>\<open>with\<close> statement is the argument \<open>body\<close>.
\<close>

definition get_client ::
  "remote \<Rightarrow> BaseTableauWorkspace \<Rightarrow> request list
     \<Rightarrow> (BaseTableauClient \<Rightarrow> request list \<Rightarrow> (error + 'a) \<times> BaseTableauClient \<times> request list)
     \<Rightarrow> (error + 'a) \<times> BaseTableauWorkspace \<times> request list" where
  "get_client srv ws log body =
     (case sign_in srv (ensure_client ws) log of
        (Inl e, c1, log1) \<Rightarrow> (Inl e, ws\<lparr>client := Some c1\<rparr>, log1)
      | (Inr r, c1, log1) \<Rightarrow>
          (case body c1 log1 of
             (Inl e, c2, log2) \<Rightarrow> (Inl e, ws\<lparr>client := Some c2\<rparr>, log2)
           | (Inr v, c2, log2) \<Rightarrow>
               (case sign_out srv c2 log2 of
                  (Inl e, c3, log3) \<Rightarrow> (Inl e, ws\<lparr>client := Some c3\<rparr>, log3)
                | (Inr u, c3, log3) \<Rightarrow> (Inr v, ws\<lparr>client := Some c3\<rparr>, log3))))"

section \<open>Building the snapshot\<close>

type_synonym content_dict = "(json \<times> TableauContentData) list"

text \<open>The body of the innermost loop, for one published data source.\<close>

definition register_data_source :: "content_dict \<Rightarrow> json \<Rightarrow> error + content_dict" where
  "register_data_source data_sources published_data_source_data =
     (case getitem published_data_source_data ''luid'' of
        Inl e \<Rightarrow> Inl e
      | Inr data_source_id \<Rightarrow>
          if \<not> truthy data_source_id then Inr data_sources
          else if \<not> hashable data_source_id then Inl TypeError
          else if map_of data_sources data_source_id \<noteq> None then Inr data_sources
          else Inr (data_sources @
                 [(data_source_id,
                   \<lparr>content_type = DATA_SOURCE, properties = published_data_source_data\<rparr>)]))"

text \<open>The body of the loop over the embedded data sources of a sheet.\<close>

definition scan_embedded :: "content_dict \<Rightarrow> json \<Rightarrow> error + content_dict" where
  "scan_embedded data_sources embedded_data_source_data =
     (case get_default embedded_data_source_data ''parentPublishedDatasources'' (JList []) of
        Inl e \<Rightarrow> Inl e
      | Inr ps \<Rightarrow>
          (case iter ps of
             Inl e \<Rightarrow> Inl e
           | Inr published \<Rightarrow> for_each register_data_source data_sources published))"

text \<open>\<^verbatim>\<open>{**view_data, "workbook": {"luid": workbook_id}}\<close>\<close>

fun augment :: "json \<Rightarrow> json \<Rightarrow> error + json" where
  "augment (JDict d) workbook_id =
     Inr (JDict (AList.update ''workbook'' (JDict [(''luid'', workbook_id)]) d))"
| "augment (JList xs) workbook_id = Inl TypeError"
| "augment (JStr s) workbook_id = Inl TypeError"
| "augment JNull workbook_id = Inl TypeError"

definition register_view :: "json \<Rightarrow> content_dict \<Rightarrow> json \<Rightarrow> error + content_dict" where
  "register_view workbook_id views view_data =
     (case getitem view_data ''luid'' of
        Inl e \<Rightarrow> Inl e
      | Inr view_id \<Rightarrow>
          if \<not> truthy view_id then Inr views
          else (case augment view_data workbook_id of
                  Inl e \<Rightarrow> Inl e
                | Inr augmented_view_data \<Rightarrow>
                    if \<not> hashable view_id then Inl TypeError
                    else Inr (AList.update view_id
                           \<lparr>content_type = VIEW, properties = augmented_view_data\<rparr> views)))"

text \<open>The body of the loop over the sheets of a workbook.\<close>

definition scan_view ::
  "json \<Rightarrow> content_dict \<times> content_dict \<Rightarrow> json \<Rightarrow> error + content_dict \<times> content_dict" where
  "scan_view workbook_id acc view_data =
     (case register_view workbook_id (fst acc) view_data of
        Inl e \<Rightarrow> Inl e
      | Inr views \<Rightarrow>
          (case get_default view_data ''parentEmbeddedDatasources'' (JList []) of
             Inl e \<Rightarrow> Inl e
           | Inr es \<Rightarrow>
               (case iter es of
                  Inl e \<Rightarrow> Inl e
                | Inr embedded \<Rightarrow>
                    (case for_each scan_embedded (snd acc) embedded of
                       Inl e \<Rightarrow> Inl e
                     | Inr data_sources \<Rightarrow> Inr (views, data_sources)))))"

text \<open>\<^verbatim>\<open>client.get_workbook(workbook_id=workbook_id)["data"]["workbooks"][0]\<close>\<close>

definition workbook_data_of :: "json \<Rightarrow> error + json" where
  "workbook_data_of response =
     (case getpath response [''data'', ''workbooks''] of
        Inl e \<Rightarrow> Inl e
      | Inr ws \<Rightarrow> getitem0 ws)"

text \<open>
  What the body of the loop over the workbook ids does with the data of one workbook:
  record the workbook, then scan its sheets.
\<close>

definition scan_workbook ::
  "json \<Rightarrow> content_dict \<times> content_dict \<times> content_dict \<Rightarrow> json
     \<Rightarrow> error + content_dict \<times> content_dict \<times> content_dict" where
  "scan_workbook workbook_id acc workbook_data =
     (let workbooks =
            AList.update workbook_id
              \<lparr>content_type = WORKBOOK, properties = workbook_data\<rparr> (fst acc)
      in case getitem workbook_data ''sheets'' of
           Inl e \<Rightarrow> Inl e
         | Inr sh \<Rightarrow>
             (case iter sh of
                Inl e \<Rightarrow> Inl e
              | Inr sheets \<Rightarrow>
                  (case for_each (scan_view workbook_id) (snd acc) sheets of
                     Inl e \<Rightarrow> Inl e
                   | Inr vd \<Rightarrow> Inr (workbooks, vd))))"

text \<open>The loop over the workbook ids: one (memoized) request per id, then the scan.\<close>

fun fetch_workbooks ::
  "remote \<Rightarrow> json list \<Rightarrow> content_dict \<times> content_dict \<times> content_dict
     \<Rightarrow> BaseTableauClient \<Rightarrow> request list
     \<Rightarrow> (error + content_dict \<times> content_dict \<times> content_dict)
         \<times> BaseTableauClient \<times> request list" where
  "fetch_workbooks srv [] acc c log = (Inr acc, c, log)"
| "fetch_workbooks srv (workbook_id # rest) acc c log =
     (case get_workbook srv workbook_id c log of
        (Inl e, c', log') \<Rightarrow> (Inl e, c', log')
      | (Inr response, c', log') \<Rightarrow>
          (case workbook_data_of response of
             Inl e \<Rightarrow> (Inl e, c', log')
           | Inr workbook_data \<Rightarrow>
               (case scan_workbook workbook_id acc workbook_data of
                  Inl e \<Rightarrow> (Inl e, c', log')
                | Inr acc' \<Rightarrow> fetch_workbooks srv rest acc' c' log')))"

text \<open>\<^verbatim>\<open>[workbook["id"] for workbook in client.get_workbooks()["workbooks"]["workbook"]]\<close>\<close>

definition workbook_ids_of :: "json \<Rightarrow> error + json list" where
  "workbook_ids_of response =
     (case getpath response [''workbooks'', ''workbook''] of
        Inl e \<Rightarrow> Inl e
      | Inr wl \<Rightarrow>
          (case iter wl of
             Inl e \<Rightarrow> Inl e
           | Inr workbooks \<Rightarrow> comprehension (\<lambda>workbook. getitem workbook ''id'') workbooks))"

text \<open>The body of the \<^verbatim>\<open>with\<close> statement of \<^verbatim>\<open>fetch_tableau_workspace_data\<close>.\<close>

definition fetch_body ::
  "remote \<Rightarrow> BaseTableauClient \<Rightarrow> request list
     \<Rightarrow> (error + content_dict \<times> content_dict \<times> content_dict)
         \<times> BaseTableauClient \<times> request list" where
  "fetch_body srv c log =
     (case get_workbooks srv c log of
        (Inl e, c', log') \<Rightarrow> (Inl e, c', log')
      | (Inr response, c', log') \<Rightarrow>
          (case workbook_ids_of response of
             Inl e \<Rightarrow> (Inl e, c', log')
           | Inr workbook_ids \<Rightarrow> fetch_workbooks srv workbook_ids ([], [], []) c' log'))"

definition fetch_tableau_workspace_data ::
  "remote \<Rightarrow> BaseTableauWorkspace \<Rightarrow> request list
     \<Rightarrow> (error + TableauWorkspaceData) \<times> BaseTableauWorkspace \<times> request list" where
  "fetch_tableau_workspace_data srv ws log =
     (case get_client srv ws log (fetch_body srv) of
        (Inl e, ws', log') \<Rightarrow> (Inl e, ws', log')
      | (Inr (workbooks, views, data_sources), ws', log') \<Rightarrow>
          (Inr \<lparr>site_name = ws_site_name ws, workbooks_by_id = workbooks,
                views_by_id = views, data_sources_by_id = data_sources\<rparr>, ws', log'))"



section \<open>Reading a snapshot\<close>

text \<open>
  The payloads a snapshot was built from, read back from the workbooks it records, in
  the order the loops visit them: the sheets of a workbook, the embedded data sources of
  a sheet, the published data sources of an embedded one. A field that is missing or
  cannot be iterated has no elements.
\<close>

definition luid_of :: "json \<Rightarrow> json" where
  "luid_of payload = (case getitem payload ''luid'' of Inl e \<Rightarrow> JNull | Inr i \<Rightarrow> i)"

definition elements :: "error + json \<Rightarrow> json list" where
  "elements field =
     (case field of
        Inl e \<Rightarrow> []
      | Inr v \<Rightarrow> (case iter v of Inl e \<Rightarrow> [] | Inr xs \<Rightarrow> xs))"

definition sheets_of :: "json \<Rightarrow> json list" where
  "sheets_of workbook_data = elements (getitem workbook_data ''sheets'')"

definition embedded_of :: "json \<Rightarrow> json list" where
  "embedded_of view_data =
     elements (get_default view_data ''parentEmbeddedDatasources'' (JList []))"

definition published_of :: "json \<Rightarrow> json list" where
  "published_of embedded_data_source_data =
     elements (get_default embedded_data_source_data ''parentPublishedDatasources'' (JList []))"

definition mentions_of_view :: "json \<Rightarrow> json list" where
  "mentions_of_view view_data = concat (map published_of (embedded_of view_data))"

definition sheets_in :: "content_dict \<Rightarrow> json list" where
  "sheets_in workbooks = concat (map (\<lambda>kc. sheets_of (properties (snd kc))) workbooks)"

definition mentions_in :: "content_dict \<Rightarrow> json list" where
  "mentions_in workbooks = concat (map mentions_of_view (sheets_in workbooks))"

text \<open>The distinct elements of a list, each at the place of its first occurrence.\<close>

definition first_seen :: "'a list \<Rightarrow> 'a list" where
  "first_seen xs = rev (remdups (rev xs))"

text \<open>
  The keys of a dictionary are the truthy ids of the payloads, in first-seen order.
\<close>

definition keyed_by_first_seen :: "content_dict \<Rightarrow> json list \<Rightarrow> bool" where
  "keyed_by_first_seen dict payloads \<longleftrightarrow>
     map fst dict = first_seen (filter truthy (map luid_of payloads))"

text \<open>
  Every entry of the dictionary holds, under the given content type, the first of the
  payloads that carries the entry's key as its id.
\<close>

definition holds_first_payload ::
  "TableauContentType \<Rightarrow> content_dict \<Rightarrow> json list \<Rightarrow> bool" where
  "holds_first_payload t dict payloads \<longleftrightarrow>
     (\<forall>kc \<in> set dict.
        content_type (snd kc) = t \<and>
        find (\<lambda>p. luid_of p = fst kc) payloads = Some (properties (snd kc)))"

section \<open>Dependencies of a view\<close>

text \<open>
  Modelled from the spec: the translator (\<^verbatim>\<open>translator.py\<close>, not among the sources) gives
  the descriptor of an item, as its dependencies, the keys of the registered
  sub-reference descriptors that the item's payload mentions, each once; a mention whose
  id resolves to no registered descriptor contributes no dependency.
\<close>

definition view_dependencies :: "TableauWorkspaceData \<Rightarrow> TableauContentData \<Rightarrow> json list" where
  "view_dependencies workspace_data view =
     first_seen
       (filter (\<lambda>i. map_of (data_sources_by_id workspace_data) i \<noteq> None)
          (map luid_of (mentions_of_view (properties view))))"

section \<open>Invariants of the loops\<close>

text \<open>
  The data sources registered so far are keyed by the truthy ids of the mentions scanned
  so far, in first-seen order, and each holds the first mention of its id.
\<close>

definition registry :: "content_dict \<Rightarrow> json list \<Rightarrow> bool" where
  "registry data_sources mentions \<longleftrightarrow>
     keyed_by_first_seen data_sources mentions \<and>
     holds_first_payload DATA_SOURCE data_sources mentions"

text \<open>A sheet the scan accepts: a dict with a \<^verbatim>\<open>luid\<close> key.\<close>

definition is_sheet :: "json \<Rightarrow> bool" where
  "is_sheet view_data \<longleftrightarrow> (\<exists>d i. view_data = JDict d \<and> map_of d ''luid'' = Some i)"

text \<open>The property bag is the sheet with the \<^verbatim>\<open>workbook\<close> entry set.\<close>

definition augmented :: "json \<Rightarrow> json \<Rightarrow> json \<Rightarrow> bool" where
  "augmented bag workbook_id view_data \<longleftrightarrow>
     (\<exists>d. view_data = JDict d \<and>
          bag = JDict (AList.update ''workbook'' (JDict [(''luid'', workbook_id)]) d))"

text \<open>Every recorded view comes from a sheet of a recorded workbook.\<close>

definition views_from :: "content_dict \<Rightarrow> content_dict \<Rightarrow> bool" where
  "views_from views workbooks \<longleftrightarrow>
     (\<forall>kc \<in> set views. \<exists>wc \<in> set workbooks.
        \<exists>view_data \<in> set (sheets_of (properties (snd wc))).
          luid_of view_data = fst kc \<and>
          content_type (snd kc) = VIEW \<and>
          augmented (properties (snd kc)) (fst wc) view_data)"

text \<open>What holds of the three dictionaries after every round of the workbook loop.\<close>

definition snapshot_inv :: "content_dict \<times> content_dict \<times> content_dict \<Rightarrow> bool" where
  "snapshot_inv acc \<longleftrightarrow>
     distinct (map fst (fst acc)) \<and>
     (\<forall>wc \<in> set (fst acc). content_type (snd wc) = WORKBOOK) \<and>
     (\<forall>view_data \<in> set (sheets_in (fst acc)). is_sheet view_data) \<and>
     keyed_by_first_seen (fst (snd acc)) (sheets_in (fst acc)) \<and>
     views_from (fst (snd acc)) (fst acc) \<and>
     registry (snd (snd acc)) (mentions_in (fst acc))"

text \<open>Every recorded workbook is the memoized answer for its id.\<close>

definition cache_agrees :: "(json \<times> json) list \<Rightarrow> content_dict \<Rightarrow> bool" where
  "cache_agrees cache workbooks \<longleftrightarrow>
     (\<forall>wc \<in> set workbooks. \<exists>r. map_of cache (fst wc) = Some r \<and>
        workbook_data_of r = Inr (properties (snd wc)))"

section \<open>Example sites\<close>

text \<open>
  A site with one workbook \<open>w\<close> holding two sheets: \<open>A\<close> uses the published data
  source \<open>X\<close>, \<open>B\<close> uses \<open>X\<close> and \<open>Y\<close>. The site accepts the token it issued and
  nothing else.
\<close>

definition signin_response :: json where
  "signin_response =
     JDict [(''credentials'',
       JDict [(''token'', JStr ''t''), (''site'', JDict [(''id'', JStr ''s'')])])]"

definition workbooks_response :: json where
  "workbooks_response =
     JDict [(''workbooks'', JDict [(''workbook'', JList [JDict [(''id'', JStr ''w'')]])])]"

definition source_X :: json where
  "source_X = JDict [(''luid'', JStr ''X''), (''name'', JStr ''x'')]"

definition source_Y :: json where
  "source_Y = JDict [(''luid'', JStr ''Y''), (''name'', JStr ''y'')]"

definition sheet_A :: json where
  "sheet_A = JDict [(''luid'', JStr ''A''),
     (''parentEmbeddedDatasources'',
        JList [JDict [(''parentPublishedDatasources'', JList [source_X])]])]"

definition sheet_B :: json where
  "sheet_B = JDict [(''luid'', JStr ''B''),
     (''parentEmbeddedDatasources'',
        JList [JDict [(''parentPublishedDatasources'', JList [source_X, source_Y])]])]"

definition workbook_w :: json where
  "workbook_w = JDict [(''luid'', JStr ''w''), (''sheets'', JList [sheet_A, sheet_B])]"

text \<open>The answer of the metadata API for a workbook.\<close>

definition answer :: "json \<Rightarrow> json" where
  "answer workbook_data = JDict [(''data'', JDict [(''workbooks'', JList [workbook_data])])]"

definition workbook_response :: json where
  "workbook_response = answer workbook_w"

fun site_serving :: "json \<Rightarrow> remote" where
  "site_serving workbook_data log (SigninRequest s) = Inr (Some signin_response)"
| "site_serving workbook_data log (SignoutRequest t) =
     (if t = JStr ''t'' then Inr None else Inl HTTPError)"
| "site_serving workbook_data log (WorkbooksRequest t s) =
     (if t = JStr ''t'' \<and> s = JStr ''s'' then Inr (Some workbooks_response)
      else Inl HTTPError)"
| "site_serving workbook_data log (WorkbookQuery t w) =
     (if t = JStr ''t'' \<and> w = JStr ''w'' then Inr (Some (answer workbook_data))
      else Inl HTTPError)"

definition site :: remote where
  "site = site_serving workbook_w"

text \<open>The snapshot of the example site.\<close>

definition acme_snapshot :: TableauWorkspaceData where
  "acme_snapshot =
     \<lparr>site_name = ''acme'',
      workbooks_by_id = [(JStr ''w'', \<lparr>content_type = WORKBOOK, properties = workbook_w\<rparr>)],
      views_by_id =
        [(JStr ''A'', \<lparr>content_type = VIEW, properties =
            JDict [(''luid'', JStr ''A''),
              (''parentEmbeddedDatasources'',
                 JList [JDict [(''parentPublishedDatasources'', JList [source_X])]]),
              (''workbook'', JDict [(''luid'', JStr ''w'')])]\<rparr>),
         (JStr ''B'', \<lparr>content_type = VIEW, properties =
            JDict [(''luid'', JStr ''B''),
              (''parentEmbeddedDatasources'',
                 JList [JDict [(''parentPublishedDatasources'', JList [source_X, source_Y])]]),
              (''workbook'', JDict [(''luid'', JStr ''w'')])]\<rparr>)],
      data_sources_by_id =
        [(JStr ''X'', \<lparr>content_type = DATA_SOURCE, properties = source_X\<rparr>),
         (JStr ''Y'', \<lparr>content_type = DATA_SOURCE, properties = source_Y\<rparr>)]\<rparr>"

text \<open>A workbook whose sheet uses a published data source with an empty id.\<close>

definition source_blank :: json where
  "source_blank = JDict [(''luid'', JStr []), (''name'', JStr ''x'')]"

definition workbook_blank :: json where
  "workbook_blank =
     JDict [(''luid'', JStr ''w''),
       (''sheets'', JList [JDict [(''luid'', JStr ''A''),
          (''parentEmbeddedDatasources'',
             JList [JDict [(''parentPublishedDatasources'', JList [source_blank])]])]])]"

text \<open>A workbook whose only sheet has no id.\<close>

definition sheet_draft :: json where
  "sheet_draft = JDict [(''luid'', JNull), (''name'', JStr ''draft'')]"

definition workbook_draft :: json where
  "workbook_draft = JDict [(''luid'', JStr ''w''), (''sheets'', JList [sheet_draft])]"

text \<open>A workbook whose sheet uses a data source without id, and \<open>X\<close>.\<close>

definition source_null :: json where
  "source_null = JDict [(''luid'', JNull), (''name'', JStr ''n'')]"

definition sheet_C :: json where
  "sheet_C = JDict [(''luid'', JStr ''C''),
     (''parentEmbeddedDatasources'',
        JList [JDict [(''parentPublishedDatasources'', JList [source_null, source_X])]])]"

definition workbook_c :: json where
  "workbook_c = JDict [(''luid'', JStr ''w''), (''sheets'', JList [sheet_C])]"

text \<open>The snapshot of the site that serves the workbook with a data source without id.\<close>

definition snapshot_c :: TableauWorkspaceData where
  "snapshot_c =
     \<lparr>site_name = ''acme'',
      workbooks_by_id = [(JStr ''w'', \<lparr>content_type = WORKBOOK, properties = workbook_c\<rparr>)],
      views_by_id =
        [(JStr ''C'', \<lparr>content_type = VIEW, properties =
            JDict [(''luid'', JStr ''C''),
              (''parentEmbeddedDatasources'',
                 JList [JDict [(''parentPublishedDatasources'',
                   JList [source_null, source_X])]]),
              (''workbook'', JDict [(''luid'', JStr ''w'')])]\<rparr>)],
      data_sources_by_id =
        [(JStr ''X'', \<lparr>content_type = DATA_SOURCE, properties = source_X\<rparr>)]\<rparr>"

text \<open>A site that signs in and out but fails to list the workbooks.\<close>

fun site_listing_fails :: remote where
  "site_listing_fails log (SigninRequest s) = Inr (Some signin_response)"
| "site_listing_fails log (SignoutRequest t) = Inr None"
| "site_listing_fails log (WorkbooksRequest t s) = Inl HTTPError"
| "site_listing_fails log (WorkbookQuery t w) = Inl HTTPError"


definition acme :: BaseTableauWorkspace where
  "acme = \<lparr>ws_site_name = ''acme'', client = None\<rparr>"

definition signed_in :: BaseTableauClient where
  "signed_in =
     \<lparr>client_site_name = ''acme'', api_token = JStr ''t'', site_id = JStr ''s'',
      get_workbooks_cache = None, get_workbook_cache = []\<rparr>"

definition signed_out :: BaseTableauClient where
  "signed_out =
     \<lparr>client_site_name = ''acme'', api_token = JNull, site_id = JNull,
      get_workbooks_cache = None, get_workbook_cache = []\<rparr>"



text \<open>
  The example site with its workbook edited after the first session: once a sign-out
  has been received, the workbook \<open>w\<close> holds the sheet \<open>C\<close> instead of \<open>A\<close> and \<open>B\<close>.
\<close>

fun site_changing :: remote where
  "site_changing log (SigninRequest s) = Inr (Some signin_response)"
| "site_changing log (SignoutRequest t) =
     (if t = JStr ''t'' then Inr None else Inl HTTPError)"
| "site_changing log (WorkbooksRequest t s) =
     (if t = JStr ''t'' \<and> s = JStr ''s'' then Inr (Some workbooks_response)
      else Inl HTTPError)"
| "site_changing log (WorkbookQuery t w) =
     (if t = JStr ''t'' \<and> w = JStr ''w''
      then Inr (Some (answer (if SignoutRequest (JStr ''t'') \<in> set log then workbook_c
                              else workbook_w)))
      else Inl HTTPError)"


section \<open>The session\<close>


text \<open>
  An exception of the body leaves \<^verbatim>\<open>get_client\<close> at the \<^verbatim>\<open>yield\<close>: the state is the one
  the body left, with no further request.
\<close>

lemma get_client_body_raises:
  assumes "sign_in srv (ensure_client ws) log = (Inr r, c1, log1)"
    and "body c1 log1 = (Inl e, c2, log2)"
  shows "get_client srv ws log body = (Inl e, ws\<lparr>client := Some c2\<rparr>, log2)"
  using assms by (simp add: get_client_def)

text \<open>
  C1: the sign-out of \<^verbatim>\<open>get_client\<close> is to run on every exit of the body. It does not:
  on the site that signs in and then fails to list the workbooks, the cycle ends with
  the error after two requests, none of them a sign-out, and the client keeps the token
  and the site id of the session.
\<close>

theorem get_client_leaks_session_when_body_raises:
  "fetch_tableau_workspace_data site_listing_fails acme [] =
     (Inl HTTPError, \<lparr>ws_site_name = ''acme'', client = Some signed_in\<rparr>,
      [SigninRequest ''acme'', WorkbooksRequest (JStr ''t'') (JStr ''s'')])"
  by code_simp







text \<open>
  C7, as stated, fails: \<^verbatim>\<open>sign_out\<close> has no guard for a session that has ended. After a
  first sign-out the second one sends another request, with no token, and the error
  of the site reaches the caller.
\<close>

theorem second_sign_out_is_not_a_no_op:
  "sign_out site signed_in [] = (Inr (), signed_out, [SignoutRequest (JStr ''t'')]) \<and>
   sign_out site signed_out [SignoutRequest (JStr ''t'')] =
     (Inl HTTPError, signed_out, [SignoutRequest (JStr ''t''), SignoutRequest JNull])"
  by code_simp

text \<open>
  C7, amended: every call of \<^verbatim>\<open>sign_out\<close> sends one sign-out request carrying the
  current token (\<^verbatim>\<open>None\<close> once the session has ended). If the request succeeds, the
  token and the site id are reset and nothing else changes; if it fails, the error of
  the request is raised and the client is left as it was.
\<close>

theorem sign_out_sends_request_then_resets:
  "sign_out srv c log = (r, c', log') \<Longrightarrow>
     log' = log @ [SignoutRequest (api_token c)] \<and>
     (r = Inr () \<longrightarrow> c' = c\<lparr>api_token := JNull, site_id := JNull\<rparr>) \<and>
     (\<forall>e. r = Inl e \<longrightarrow> c' = c \<and> srv log (SignoutRequest (api_token c)) = Inl e)"
  by (auto simp: sign_out_def make_request_def split: sum.splits prod.splits)

theorem sign_out_sends_request_then_resets_witness:
  "sign_out site signed_in [] = (Inr (), signed_out, [SignoutRequest (JStr ''t'')]) \<and>
   [SignoutRequest (JStr ''t'')] = [] @ [SignoutRequest (api_token signed_in)] \<and>
   signed_out = signed_in\<lparr>api_token := JNull, site_id := JNull\<rparr>"
proof -
  have h: "sign_out site signed_in [] = (Inr (), signed_out, [SignoutRequest (JStr ''t'')])"
    by code_simp
  from sign_out_sends_request_then_resets [OF h] h show ?thesis
    by simp
qed

text \<open>
  \<^verbatim>\<open>sign_out\<close> assigns the token and the site id and nothing else, so the memoized results
  outlive the session; a call whose arguments are memoized sends no request.
\<close>

lemma sign_out_leaves_memo:
  "get_workbooks_cache (fst (snd (sign_out srv c log))) = get_workbooks_cache c \<and>
   get_workbook_cache (fst (snd (sign_out srv c log))) = get_workbook_cache c \<and>
   (\<forall>r. get_workbooks_cache c = Some r \<longrightarrow> get_workbooks srv c log = (Inr r, c, log)) \<and>
   (\<forall>r. hashable w \<and> map_of (get_workbook_cache c) w = Some r \<longrightarrow>
        get_workbook srv w c log = (Inr r, c, log))"
  by (auto simp: sign_out_def make_request_def get_workbooks_def get_workbook_def
      split: sum.splits prod.splits)

text \<open>
  C9: the memoized results are to be cleared on session end, so that every cycle
  fetches the content again, as the docstrings of \<^verbatim>\<open>fetch_tableau_workspace_data\<close> and
  \<^verbatim>\<open>build_asset_specs\<close> say it does. They are not. On the site whose workbook is edited
  after the first session, a second cycle on the same workspace signs in and out, sends
  no content request and returns the snapshot of the first session, while a workspace
  that starts at the same moment gets the edited content.
\<close>

theorem second_cycle_returns_stale_snapshot:
  "fst (fetch_tableau_workspace_data site_changing acme []) = Inr acme_snapshot \<and>
   fst (fetch_tableau_workspace_data site_changing
         (fst (snd (fetch_tableau_workspace_data site_changing acme [])))
         (snd (snd (fetch_tableau_workspace_data site_changing acme [])))) =
     Inr acme_snapshot \<and>
   snd (snd (fetch_tableau_workspace_data site_changing
         (fst (snd (fetch_tableau_workspace_data site_changing acme [])))
         (snd (snd (fetch_tableau_workspace_data site_changing acme []))))) =
     [SigninRequest ''acme'', WorkbooksRequest (JStr ''t'') (JStr ''s''),
      WorkbookQuery (JStr ''t'') (JStr ''w''), SignoutRequest (JStr ''t''),
      SigninRequest ''acme'', SignoutRequest (JStr ''t'')] \<and>
   fst (fetch_tableau_workspace_data site_changing acme
         (snd (snd (fetch_tableau_workspace_data site_changing acme [])))) =
     Inr snapshot_c"
  by code_simp

section \<open>First-seen order and loops\<close>

lemma first_seen_Nil [simp]: "first_seen [] = []"
  by (simp add: first_seen_def)

lemma first_seen_snoc:
  "first_seen (xs @ [x]) = (if x \<in> set xs then first_seen xs else first_seen xs @ [x])"
  by (simp add: first_seen_def)

lemma set_first_seen [simp]: "set (first_seen xs) = set xs"
  by (simp add: first_seen_def)

lemma distinct_first_seen [simp]: "distinct (first_seen xs)"
  by (simp add: first_seen_def)

lemma first_seen_absorb: "set ys \<subseteq> set xs \<Longrightarrow> first_seen (xs @ ys) = first_seen xs"
proof (induction ys rule: rev_induct)
  case Nil
  then show ?case by simp
next
  case (snoc y ys)
  then have "first_seen ((xs @ ys) @ [y]) = first_seen (xs @ ys)"
    by (subst first_seen_snoc) auto
  with snoc show ?case by simp
qed

lemma for_each_append:
  "for_each f s (xs @ ys) =
     (case for_each f s xs of Inl e \<Rightarrow> Inl e | Inr s' \<Rightarrow> for_each f s' ys)"
  by (induction xs arbitrary: s) (auto split: sum.splits)

lemma for_each_trace:
  assumes step: "\<And>s x s' tr. I s tr \<Longrightarrow> f s x = Inr s' \<Longrightarrow> I s' (tr @ [x])"
    and "I s tr" and "for_each f s xs = Inr s'"
  shows "I s' (tr @ xs)"
  using assms(2,3)
proof (induction xs arbitrary: s tr)
  case Nil
  then show ?case by simp
next
  case (Cons x xs)
  from Cons.prems(2) obtain s1 where f: "f s x = Inr s1" and r: "for_each f s1 xs = Inr s'"
    by (auto split: sum.splits)
  from step [OF Cons.prems(1) f] have "I s1 (tr @ [x])" .
  from Cons.IH [OF this r] show ?case by simp
qed

lemma find_append_Some: "find P xs = Some x \<Longrightarrow> find P (xs @ ys) = Some x"
  by (induction xs) (auto split: if_splits)

lemma find_append_None: "find P xs = None \<Longrightarrow> find P (xs @ ys) = find P ys"
  by (induction xs) (auto split: if_splits)

lemma find_absorb:
  "find P (xs @ ys) = find P xs" if "set ys \<subseteq> set xs"
proof (cases "find P xs")
  case None
  then have "\<forall>x \<in> set xs. \<not> P x" by (simp add: find_None_iff)
  with that have "find P ys = None" by (auto simp: find_None_iff)
  with None show ?thesis by (simp add: find_append_None)
next
  case (Some a)
  then show ?thesis by (simp add: find_append_Some)
qed

lemma register_data_source_cases:
  assumes "register_data_source ds p = Inr ds'"
  shows "getitem p ''luid'' = Inr (luid_of p) \<and>
         (if truthy (luid_of p) \<and> luid_of p \<notin> fst ` set ds
          then hashable (luid_of p) \<and>
               ds' = ds @ [(luid_of p, \<lparr>content_type = DATA_SOURCE, properties = p\<rparr>)]
          else ds' = ds)"
  using assms
  by (auto simp: register_data_source_def luid_of_def map_of_eq_None_iff
      split: sum.splits if_splits)

lemma register_data_source_keys:
  assumes "keyed_by_first_seen ds ms" and "register_data_source ds p = Inr ds'"
  shows "keyed_by_first_seen ds' (ms @ [p])"
proof -
  from assms(1) have k: "map fst ds = first_seen (filter truthy (map luid_of ms))"
    by (simp add: keyed_by_first_seen_def)
  then have s: "fst ` set ds = {i \<in> luid_of ` set ms. truthy i}"
    by (metis (no_types, lifting) Collect_cong set_filter set_first_seen set_map)
  from register_data_source_cases [OF assms(2)] k s show ?thesis
    by (auto simp: keyed_by_first_seen_def first_seen_snoc split: if_splits)
qed

lemma register_data_source_first:
  assumes "keyed_by_first_seen ds ms" and "holds_first_payload DATA_SOURCE ds ms"
    and "register_data_source ds p = Inr ds'"
  shows "holds_first_payload DATA_SOURCE ds' (ms @ [p])"
proof -
  from assms(1) have k: "map fst ds = first_seen (filter truthy (map luid_of ms))"
    by (simp add: keyed_by_first_seen_def)
  then have s: "fst ` set ds = {i \<in> luid_of ` set ms. truthy i}"
    by (metis (no_types, lifting) Collect_cong set_filter set_first_seen set_map)
  have old: "\<forall>kc \<in> set ds. content_type (snd kc) = DATA_SOURCE \<and>
      find (\<lambda>q. luid_of q = fst kc) (ms @ [p]) = Some (properties (snd kc))"
    using assms(2) by (auto simp: holds_first_payload_def find_append_Some)
  show ?thesis
  proof (cases "truthy (luid_of p) \<and> luid_of p \<notin> fst ` set ds")
    case False
    with register_data_source_cases [OF assms(3)] have "ds' = ds" by (auto split: if_splits)
    with old show ?thesis by (simp add: holds_first_payload_def)
  next
    case True
    with register_data_source_cases [OF assms(3)]
    have d: "ds' = ds @ [(luid_of p, \<lparr>content_type = DATA_SOURCE, properties = p\<rparr>)]"
      by (auto split: if_splits)
    from True s have "luid_of p \<notin> luid_of ` set ms" by auto
    then have "\<forall>q \<in> set ms. luid_of q \<noteq> luid_of p" by (metis imageI)
    then have "find (\<lambda>q. luid_of q = luid_of p) ms = None"
      by (simp add: find_None_iff)
    then have "find (\<lambda>q. luid_of q = luid_of p) (ms @ [p]) = Some p"
      by (simp add: find_append_None)
    with old d show ?thesis by (auto simp: holds_first_payload_def)
  qed
qed

lemma for_each_trace_in:
  assumes step: "\<And>s x s' tr. I s tr \<Longrightarrow> x \<in> A \<Longrightarrow> f s x = Inr s' \<Longrightarrow> I s' (tr @ [x])"
    and "I s tr" and "for_each f s xs = Inr s'" and "set xs \<subseteq> A"
  shows "I s' (tr @ xs)"
  using assms(2,3,4)
proof (induction xs arbitrary: s tr)
  case Nil
  then show ?case by simp
next
  case (Cons x xs)
  from Cons.prems(2) obtain s1 where f: "f s x = Inr s1" and r: "for_each f s1 xs = Inr s'"
    by (auto split: sum.splits)
  from Cons.prems(3) have "x \<in> A" and sub: "set xs \<subseteq> A" by auto
  from step [OF Cons.prems(1) \<open>x \<in> A\<close> f] have "I s1 (tr @ [x])" .
  from Cons.IH [OF this r sub] show ?case by simp
qed

lemma register_data_source_registry:
  "registry ds ms \<Longrightarrow> register_data_source ds p = Inr ds' \<Longrightarrow> registry ds' (ms @ [p])"
  unfolding registry_def
  using register_data_source_keys register_data_source_first by blast

lemma scan_embedded_registry:
  assumes "registry ds ms" and "scan_embedded ds e = Inr ds'"
  shows "registry ds' (ms @ published_of e)"
proof -
  from assms(2) obtain ps published where
    g: "get_default e ''parentPublishedDatasources'' (JList []) = Inr ps"
    and i: "iter ps = Inr published"
    and f: "for_each register_data_source ds published = Inr ds'"
    by (auto simp: scan_embedded_def split: sum.splits)
  from g i have p: "published_of e = published"
    by (simp add: published_of_def elements_def)
  have "registry ds' (ms @ ([] @ published))"
  proof (rule for_each_trace [where I = "\<lambda>s tr. registry s (ms @ tr)", OF _ _ f])
    show "registry ds (ms @ [])" using assms(1) by simp
  next
    fix s x s' tr
    assume "registry s (ms @ tr)" and "register_data_source s x = Inr s'"
    from register_data_source_registry [OF this]
    show "registry s' (ms @ tr @ [x])" by simp
  qed
  with p show ?thesis by simp
qed

lemma scan_embedded_loop_registry:
  assumes "registry ds ms" and "for_each scan_embedded ds es = Inr ds'"
  shows "registry ds' (ms @ concat (map published_of es))"
proof -
  have "registry ds' (ms @ concat (map published_of ([] @ es)))"
  proof (rule for_each_trace
      [where I = "\<lambda>s tr. registry s (ms @ concat (map published_of tr))", OF _ _ assms(2)])
    show "registry ds (ms @ concat (map published_of []))"
      using assms(1) by simp
  next
    fix s x s' tr
    assume "registry s (ms @ concat (map published_of tr))" and "scan_embedded s x = Inr s'"
    from scan_embedded_registry [OF this]
    show "registry s' (ms @ concat (map published_of (tr @ [x])))" by simp
  qed
  then show ?thesis by simp
qed

lemma register_view_cases:
  assumes "register_view wid views v = Inr views'"
  shows "is_sheet v \<and>
         (if truthy (luid_of v)
          then hashable (luid_of v) \<and>
               (\<exists>bag. augmented bag wid v \<and>
                  views' = AList.update (luid_of v) \<lparr>content_type = VIEW, properties = bag\<rparr> views)
          else views' = views)"
proof -
  from assms obtain i where g: "getitem v ''luid'' = Inr i"
    by (auto simp: register_view_def split: sum.splits)
  then obtain d where d: "v = JDict d" and m: "map_of d ''luid'' = Some i"
    by (cases v) (auto split: option.splits)
  from g have l: "luid_of v = i" by (simp add: luid_of_def)
  from d m have s: "is_sheet v" by (auto simp: is_sheet_def)
  show ?thesis
    using assms g d l s
    by (auto simp: register_view_def augmented_def split: sum.splits if_splits)
qed

lemma scan_view_cases:
  assumes "scan_view wid acc v = Inr acc'"
  shows "register_view wid (fst acc) v = Inr (fst acc') \<and>
         for_each scan_embedded (snd acc) (embedded_of v) = Inr (snd acc')"
  using assms
  by (auto simp: scan_view_def embedded_of_def elements_def split: sum.splits)

lemma scan_view_registry:
  assumes "registry (snd acc) ms" and "scan_view wid acc v = Inr acc'"
  shows "registry (snd acc') (ms @ mentions_of_view v)"
  using scan_embedded_loop_registry [OF assms(1)] scan_view_cases [OF assms(2)]
  by (simp add: mentions_of_view_def)

lemma scan_view_keys:
  assumes "keyed_by_first_seen (fst acc) ss" and "scan_view wid acc v = Inr acc'"
  shows "keyed_by_first_seen (fst acc') (ss @ [v])"
proof -
  from scan_view_cases [OF assms(2)] have r: "register_view wid (fst acc) v = Inr (fst acc')"
    by simp
  from assms(1) have k: "map fst (fst acc) = first_seen (filter truthy (map luid_of ss))"
    by (simp add: keyed_by_first_seen_def)
  then have s: "set (map fst (fst acc)) = {i \<in> luid_of ` set ss. truthy i}"
    by (metis (no_types, lifting) Collect_cong set_filter set_first_seen set_map)
  from register_view_cases [OF r] k s show ?thesis
    by (auto simp: keyed_by_first_seen_def first_seen_snoc update_keys split: if_splits)
qed

section \<open>The scan of a workbook\<close>

lemma set_update_subset: "set (AList.update k v al) \<subseteq> insert (k, v) (set al)"
  by (induction al) auto

lemma update_new: "k \<notin> fst ` set al \<Longrightarrow> AList.update k v al = al @ [(k, v)]"
  by (induction al) auto

lemma update_mem: "(k, v) \<in> set (AList.update k v al)"
  by (induction al) auto

lemma keyed_absorb:
  assumes "keyed_by_first_seen dict (ps @ qs)" and "set qs \<subseteq> set ps"
  shows "keyed_by_first_seen dict ps"
proof -
  from assms(2) have "set (filter truthy (map luid_of qs)) \<subseteq> set (filter truthy (map luid_of ps))"
    by auto
  from first_seen_absorb [OF this] assms(1) show ?thesis
    by (simp add: keyed_by_first_seen_def)
qed

lemma holds_absorb:
  assumes "holds_first_payload t dict (ps @ qs)" and "set qs \<subseteq> set ps"
  shows "holds_first_payload t dict ps"
  using assms by (simp add: holds_first_payload_def find_absorb)

lemma registry_absorb:
  "registry ds (ps @ qs) \<Longrightarrow> set qs \<subseteq> set ps \<Longrightarrow> registry ds ps"
  unfolding registry_def using keyed_absorb holds_absorb by blast

lemma views_from_mono: "views_from views wbs \<Longrightarrow> set wbs \<subseteq> set wbs' \<Longrightarrow> views_from views wbs'"
  unfolding views_from_def by blast

lemma register_view_from:
  assumes "views_from views wbs" and "register_view wid views v = Inr views'"
    and "wc \<in> set wbs" and "fst wc = wid" and "v \<in> set (sheets_of (properties (snd wc)))"
  shows "views_from views' wbs"
proof (cases "truthy (luid_of v)")
  case False
  with register_view_cases [OF assms(2)] assms(1) show ?thesis by simp
next
  case True
  with register_view_cases [OF assms(2)] obtain bag where
    a: "augmented bag wid v"
    and u: "views' = AList.update (luid_of v) \<lparr>content_type = VIEW, properties = bag\<rparr> views"
    by auto
  show ?thesis
    unfolding views_from_def
  proof
    fix kc assume "kc \<in> set views'"
    with u set_update_subset
    have "kc = (luid_of v, \<lparr>content_type = VIEW, properties = bag\<rparr>) \<or> kc \<in> set views"
      by fastforce
    then show "\<exists>wc\<in>set wbs. \<exists>view_data\<in>set (sheets_of (properties (snd wc))).
        luid_of view_data = fst kc \<and> content_type (snd kc) = VIEW \<and>
        augmented (properties (snd kc)) (fst wc) view_data"
    proof
      assume "kc = (luid_of v, \<lparr>content_type = VIEW, properties = bag\<rparr>)"
      with a assms(3,4,5) show ?thesis by auto
    next
      assume "kc \<in> set views"
      with assms(1) show ?thesis by (simp add: views_from_def)
    qed
  qed
qed

lemma scan_sheets:
  assumes f: "for_each (scan_view wid) vd sheets = Inr vd'"
    and k: "keyed_by_first_seen (fst vd) ss0"
    and r: "registry (snd vd) (concat (map mentions_of_view ss0))"
    and vf: "views_from (fst vd) wbs"
    and w: "wc \<in> set wbs" "fst wc = wid" "set sheets \<subseteq> set (sheets_of (properties (snd wc)))"
  shows "keyed_by_first_seen (fst vd') (ss0 @ sheets) \<and>
         registry (snd vd') (concat (map mentions_of_view (ss0 @ sheets))) \<and>
         views_from (fst vd') wbs \<and> (\<forall>v \<in> set sheets. is_sheet v)"
proof -
  let ?I = "\<lambda>s tr. keyed_by_first_seen (fst s) (ss0 @ tr) \<and>
         registry (snd s) (concat (map mentions_of_view (ss0 @ tr))) \<and>
         views_from (fst s) wbs \<and> (\<forall>v \<in> set tr. is_sheet v)"
  have "?I vd' ([] @ sheets)"
  proof (rule for_each_trace_in [where I = ?I, OF _ _ f w(3)])
    show "?I vd []" using k r vf by simp
  next
    fix s x s' tr
    assume i: "?I s tr" and x: "x \<in> set (sheets_of (properties (snd wc)))"
      and sv: "scan_view wid s x = Inr s'"
    from scan_view_cases [OF sv] have rv: "register_view wid (fst s) x = Inr (fst s')"
      by simp
    from i have ik: "keyed_by_first_seen (fst s) (ss0 @ tr)"
      and ir: "registry (snd s) (concat (map mentions_of_view (ss0 @ tr)))"
      and iv: "views_from (fst s) wbs" and it: "\<forall>v \<in> set tr. is_sheet v"
      by simp_all
    from scan_view_keys [OF ik sv] have 1: "keyed_by_first_seen (fst s') (ss0 @ tr @ [x])"
      by simp
    from scan_view_registry [OF ir sv]
    have 2: "registry (snd s') (concat (map mentions_of_view (ss0 @ tr @ [x])))"
      by simp
    from register_view_from [OF iv rv w(1,2) x] have 3: "views_from (fst s') wbs" .
    from it register_view_cases [OF rv] have 4: "\<forall>v \<in> set (tr @ [x]). is_sheet v"
      by simp
    from 1 2 3 4 show "?I s' (tr @ [x])" by simp
  qed
  then show ?thesis by simp
qed

lemma first_seen_append:
  "first_seen (xs @ ys) = first_seen xs @ filter (\<lambda>y. y \<notin> set xs) (first_seen ys)"
proof (induction ys rule: rev_induct)
  case Nil
  then show ?case by simp
next
  case (snoc y ys)
  have "first_seen (xs @ ys @ [y]) =
      (if y \<in> set (xs @ ys) then first_seen (xs @ ys) else first_seen (xs @ ys) @ [y])"
    using first_seen_snoc [of "xs @ ys" y] by simp
  with snoc show ?case by (auto simp: first_seen_snoc)
qed

lemma first_seen_skip:
  assumes "x \<in> set xs"
  shows "first_seen (xs @ x # ys) = first_seen (xs @ ys)"
proof -
  from assms have "set (xs @ [x]) = set xs" by auto
  moreover from assms have "first_seen (xs @ [x]) = first_seen xs"
    by (simp add: first_seen_snoc)
  ultimately have "first_seen ((xs @ [x]) @ ys) = first_seen (xs @ ys)"
    by (simp only: first_seen_append [of "xs @ [x]" ys] first_seen_append [of xs ys])
  then show ?thesis by simp
qed

lemma first_seen_distinct: "distinct xs \<Longrightarrow> first_seen xs = xs"
  by (simp add: first_seen_def distinct_remdups_id)

lemma first_seen_Cons:
  "first_seen (x # xs) = x # filter (\<lambda>y. y \<noteq> x) (first_seen xs)"
  using first_seen_append [of "[x]" xs] by (simp add: first_seen_def)

lemma scan_workbook_cases:
  assumes "scan_workbook wid acc wb = Inr acc'"
  shows "fst acc' = AList.update wid \<lparr>content_type = WORKBOOK, properties = wb\<rparr> (fst acc) \<and>
         for_each (scan_view wid) (snd acc) (sheets_of wb) = Inr (snd acc')"
  using assms
  by (auto simp: scan_workbook_def sheets_of_def elements_def Let_def split: sum.splits)

lemma sheets_in_snoc: "sheets_in (wbs @ [(k, c)]) = sheets_in wbs @ sheets_of (properties c)"
  by (simp add: sheets_in_def)

lemma sheets_of_subset:
  "wc \<in> set wbs \<Longrightarrow> set (sheets_of (properties (snd wc))) \<subseteq> set (sheets_in wbs)"
  by (auto simp: sheets_in_def)

lemma scan_workbook_inv:
  assumes inv: "snapshot_inv acc"
    and known: "wid \<in> fst ` set (fst acc) \<Longrightarrow>
                 (wid, \<lparr>content_type = WORKBOOK, properties = wb\<rparr>) \<in> set (fst acc)"
    and s: "scan_workbook wid acc wb = Inr acc'"
  shows "snapshot_inv acc' \<and>
         fst acc' = (if wid \<in> fst ` set (fst acc) then fst acc
                     else fst acc @ [(wid, \<lparr>content_type = WORKBOOK, properties = wb\<rparr>)])"
proof -
  let ?c = "\<lparr>content_type = WORKBOOK, properties = wb\<rparr>"
  let ?wbs = "fst acc"
  from scan_workbook_cases [OF s]
  have u: "fst acc' = AList.update wid ?c ?wbs"
    and f: "for_each (scan_view wid) (snd acc) (sheets_of wb) = Inr (snd acc')"
    by simp_all
  from inv have d: "distinct (map fst ?wbs)"
    and t: "\<forall>wc \<in> set ?wbs. content_type (snd wc) = WORKBOOK"
    and sh: "\<forall>v \<in> set (sheets_in ?wbs). is_sheet v"
    and k: "keyed_by_first_seen (fst (snd acc)) (sheets_in ?wbs)"
    and vf: "views_from (fst (snd acc)) ?wbs"
    and r: "registry (snd (snd acc)) (mentions_in ?wbs)"
    by (simp_all add: snapshot_inv_def)
  show ?thesis
  proof (cases "wid \<in> fst ` set ?wbs")
    case True
    from known [OF True] have m: "(wid, ?c) \<in> set ?wbs" .
    with d have "map_of ?wbs wid = Some ?c" by simp
    with u have same: "fst acc' = ?wbs" by (simp add: update_triv)
    from sheets_of_subset [OF m] have sub: "set (sheets_of wb) \<subseteq> set (sheets_in ?wbs)"
      by simp
    from scan_sheets [OF f k _ vf m] r
    have k1: "keyed_by_first_seen (fst (snd acc')) (sheets_in ?wbs @ sheets_of wb)"
      and k2: "registry (snd (snd acc'))
                (concat (map mentions_of_view (sheets_in ?wbs @ sheets_of wb)))"
      and k3: "views_from (fst (snd acc')) ?wbs"
      by (simp_all add: mentions_in_def)
    from keyed_absorb [OF k1 sub]
    have a1: "keyed_by_first_seen (fst (snd acc')) (sheets_in ?wbs)" .
    from sub have "set (concat (map mentions_of_view (sheets_of wb)))
        \<subseteq> set (mentions_in ?wbs)"
      by (auto simp: mentions_in_def)
    moreover from k2 have "registry (snd (snd acc'))
        (mentions_in ?wbs @ concat (map mentions_of_view (sheets_of wb)))"
      by (simp add: mentions_in_def)
    ultimately have a2: "registry (snd (snd acc')) (mentions_in ?wbs)"
      by (rule registry_absorb [rotated])
    from same d t sh a1 a2 k3 True show ?thesis
      by (simp add: snapshot_inv_def)
  next
    case False
    with u have new: "fst acc' = ?wbs @ [(wid, ?c)]" by (simp add: update_new)
    then have m: "(wid, ?c) \<in> set (fst acc')" by simp
    from new have si: "sheets_in (fst acc') = sheets_in ?wbs @ sheets_of wb"
      by (simp add: sheets_in_snoc)
    from vf new have vf': "views_from (fst (snd acc)) (fst acc')"
      by (auto intro: views_from_mono)
    from scan_sheets [OF f k _ vf' m] r
    have k1: "keyed_by_first_seen (fst (snd acc')) (sheets_in ?wbs @ sheets_of wb)"
      and k2: "registry (snd (snd acc'))
                (concat (map mentions_of_view (sheets_in ?wbs @ sheets_of wb)))"
      and k3: "views_from (fst (snd acc')) (fst acc')"
      and k4: "\<forall>v \<in> set (sheets_of wb). is_sheet v"
      by (simp_all add: mentions_in_def)
    from new d False have d': "distinct (map fst (fst acc'))" by simp
    from new t have t': "\<forall>wc \<in> set (fst acc'). content_type (snd wc) = WORKBOOK" by simp
    from si sh k4 have sh': "\<forall>v \<in> set (sheets_in (fst acc')). is_sheet v" by auto
    from d' t' sh' k1 k2 k3 si new False show ?thesis
      by (simp add: snapshot_inv_def mentions_in_def)
  qed
qed

lemma get_workbook_cases:
  assumes "get_workbook srv wid c log = (Inr r, c', log')"
  shows "map_of (get_workbook_cache c') wid = Some r \<and>
         (\<forall>k v. map_of (get_workbook_cache c) k = Some v \<longrightarrow>
                map_of (get_workbook_cache c') k = Some v) \<and>
         get_workbooks_cache c' = get_workbooks_cache c"
  using assms
  by (auto simp: get_workbook_def map_add_def
      split: if_splits option.splits prod.splits sum.splits)

lemma get_workbook_error:
  assumes "get_workbook srv wid c log = (Inl e, c', log')"
  shows "c' = c"
  using assms
  by (auto simp: get_workbook_def split: if_splits option.splits prod.splits sum.splits)

lemma cache_agrees_mono:
  assumes "cache_agrees cache wbs"
    and "\<forall>k v. map_of cache k = Some v \<longrightarrow> map_of cache' k = Some v"
  shows "cache_agrees cache' wbs"
  using assms unfolding cache_agrees_def by blast

lemma fetch_workbooks_inv:
  assumes "fetch_workbooks srv ids acc c log = (Inr acc', c', log')"
    and "snapshot_inv acc" and "cache_agrees (get_workbook_cache c) (fst acc)"
  shows "snapshot_inv acc' \<and> cache_agrees (get_workbook_cache c') (fst acc') \<and>
         map fst (fst acc') = first_seen (map fst (fst acc) @ ids) \<and>
         get_workbooks_cache c' = get_workbooks_cache c"
  using assms
proof (induction ids arbitrary: acc c log)
  case Nil
  then have "distinct (map fst (fst acc))" by (simp add: snapshot_inv_def)
  with Nil show ?case by (simp add: first_seen_distinct)
next
  case (Cons wid ids)
  let ?wbs = "fst acc"
  from Cons.prems(1) obtain r c1 log1 wb acc1 where
    g: "get_workbook srv wid c log = (Inr r, c1, log1)"
    and w: "workbook_data_of r = Inr wb"
    and s: "scan_workbook wid acc wb = Inr acc1"
    and rest: "fetch_workbooks srv ids acc1 c1 log1 = (Inr acc', c', log')"
    by (auto split: prod.splits sum.splits)
  let ?c = "\<lparr>content_type = WORKBOOK, properties = wb\<rparr>"
  from get_workbook_cases [OF g]
  have hit: "map_of (get_workbook_cache c1) wid = Some r"
    and ext: "\<forall>k v. map_of (get_workbook_cache c) k = Some v \<longrightarrow>
                map_of (get_workbook_cache c1) k = Some v"
    and lst: "get_workbooks_cache c1 = get_workbooks_cache c"
    by simp_all
  from cache_agrees_mono [OF Cons.prems(3) ext]
  have ag: "cache_agrees (get_workbook_cache c1) ?wbs" .
  have known: "(wid, ?c) \<in> set ?wbs" if "wid \<in> fst ` set ?wbs"
  proof -
    from that obtain x where x: "(wid, x) \<in> set ?wbs" by auto
    with ag hit w have "properties x = wb"
      by (fastforce simp: cache_agrees_def)
    moreover from Cons.prems(2) x have "content_type x = WORKBOOK"
      by (auto simp: snapshot_inv_def)
    ultimately have "x = ?c" by simp
    with x show ?thesis by simp
  qed
  from scan_workbook_inv [OF Cons.prems(2) known s]
  have inv1: "snapshot_inv acc1"
    and wbs1: "fst acc1 = (if wid \<in> fst ` set ?wbs then ?wbs else ?wbs @ [(wid, ?c)])"
    by simp_all
  have ag1: "cache_agrees (get_workbook_cache c1) (fst acc1)"
    using ag wbs1 hit w by (auto simp: cache_agrees_def)
  from Cons.IH [OF rest inv1 ag1]
  have a: "snapshot_inv acc'" and b: "cache_agrees (get_workbook_cache c') (fst acc')"
    and k: "map fst (fst acc') = first_seen (map fst (fst acc1) @ ids)"
    and l: "get_workbooks_cache c' = get_workbooks_cache c1"
    by simp_all
  from Cons.prems(2) have d: "distinct (map fst ?wbs)" by (simp add: snapshot_inv_def)
  have "first_seen (map fst (fst acc1) @ ids) = first_seen (map fst ?wbs @ wid # ids)"
  proof (cases "wid \<in> fst ` set ?wbs")
    case True
    then have "set [wid] \<subseteq> set (map fst ?wbs)" by simp
    then have e: "first_seen (map fst ?wbs @ [wid]) = first_seen (map fst ?wbs)"
      by (rule first_seen_absorb)
    with True wbs1 show ?thesis
      by (simp add: first_seen_skip)
  next
    case False
    with wbs1 show ?thesis by simp
  qed
  with a b k l lst show ?case by simp
qed

section \<open>The snapshot of a fetch\<close>

lemma snapshot_inv_empty: "snapshot_inv ([], [], [])"
  by (simp add: snapshot_inv_def sheets_in_def mentions_in_def keyed_by_first_seen_def
      views_from_def registry_def holds_first_payload_def)

lemma get_workbooks_cases:
  assumes "get_workbooks srv c log = (Inr r, c', log')"
  shows "get_workbooks_cache c' = Some r \<and> get_workbook_cache c' = get_workbook_cache c"
  using assms
  by (auto simp: get_workbooks_def split: option.splits prod.splits sum.splits)

lemma fetch_body_inv:
  assumes "fetch_body srv c log = (Inr acc, c', log')"
  shows "snapshot_inv acc \<and>
         (\<exists>r ids. get_workbooks_cache c' = Some r \<and> workbook_ids_of r = Inr ids \<and>
            map fst (fst acc) = first_seen ids)"
proof -
  from assms obtain r c1 log1 ids where
    g: "get_workbooks srv c log = (Inr r, c1, log1)"
    and i: "workbook_ids_of r = Inr ids"
    and f: "fetch_workbooks srv ids ([], [], []) c1 log1 = (Inr acc, c', log')"
    by (auto simp: fetch_body_def split: prod.splits sum.splits)
  have "cache_agrees (get_workbook_cache c1) (fst ([], [], []))"
    by (simp add: cache_agrees_def)
  from fetch_workbooks_inv [OF f snapshot_inv_empty this] get_workbooks_cases [OF g] i
  show ?thesis by auto
qed

lemma sign_out_caches:
  assumes "sign_out srv c log = (r, c', log')"
  shows "get_workbooks_cache c' = get_workbooks_cache c \<and>
         get_workbook_cache c' = get_workbook_cache c"
  using assms
  by (auto simp: sign_out_def split: prod.splits sum.splits)

lemma get_client_cases:
  assumes "get_client srv ws log body = (Inr v, ws', log')"
  shows "\<exists>c1 log1 c2 log2 c3.
           body c1 log1 = (Inr v, c2, log2) \<and> client ws' = Some c3 \<and>
           get_workbooks_cache c3 = get_workbooks_cache c2"
proof -
  from assms obtain r c1 log1 c2 log2 u c3 log3 where
    "sign_in srv (ensure_client ws) log = (Inr r, c1, log1)"
    and b: "body c1 log1 = (Inr v, c2, log2)"
    and o: "sign_out srv c2 log2 = (Inr u, c3, log3)"
    and w: "ws' = ws\<lparr>client := Some c3\<rparr>"
    by (auto simp: get_client_def split: prod.splits sum.splits)
  from sign_out_caches [OF o] b w show ?thesis by auto
qed

lemma fetch_snapshot:
  assumes "fst (fetch_tableau_workspace_data srv ws log) = Inr wd"
  shows "snapshot_inv (workbooks_by_id wd, views_by_id wd, data_sources_by_id wd) \<and>
         site_name wd = ws_site_name ws \<and>
         (\<exists>c r ids. client (fst (snd (fetch_tableau_workspace_data srv ws log))) = Some c \<and>
            get_workbooks_cache c = Some r \<and> workbook_ids_of r = Inr ids \<and>
            map fst (workbooks_by_id wd) = first_seen ids)"
proof -
  obtain res ws' log' where g: "get_client srv ws log (fetch_body srv) = (res, ws', log')"
    by (cases "get_client srv ws log (fetch_body srv)") auto
  with assms obtain acc where r: "res = Inr acc"
    by (cases res) (auto simp: fetch_tableau_workspace_data_def)
  from g r assms
  have wd: "wd = \<lparr>site_name = ws_site_name ws, workbooks_by_id = fst acc,
      views_by_id = fst (snd acc), data_sources_by_id = snd (snd acc)\<rparr>"
    and w: "fst (snd (fetch_tableau_workspace_data srv ws log)) = ws'"
    by (auto simp: fetch_tableau_workspace_data_def split: prod.splits)
  from get_client_cases [OF g [unfolded r]] obtain c1 log1 c2 log2 c3 where
    b: "fetch_body srv c1 log1 = (Inr acc, c2, log2)" and c: "client ws' = Some c3"
    and k: "get_workbooks_cache c3 = get_workbooks_cache c2"
    by blast
  from fetch_body_inv [OF b] wd w c k show ?thesis by auto
qed

section \<open>What a snapshot holds\<close>

lemma keyed_set:
  assumes "keyed_by_first_seen dict ps"
  shows "fst ` set dict = {i \<in> luid_of ` set ps. truthy i}"
proof -
  from assms have "set (map fst dict) = set (filter truthy (map luid_of ps))"
    by (simp add: keyed_by_first_seen_def)
  then show ?thesis by auto
qed

lemma length_first_seen: "length (first_seen xs) = card (set xs)"
  by (simp add: first_seen_def length_remdups_card_conv)

text \<open>
  C2, amended: in the snapshot of every fetch that returns, the keys of
  \<^verbatim>\<open>data_sources_by_id\<close> are the distinct truthy ids (neither \<^verbatim>\<open>None\<close> nor empty)
  mentioned under the sheets of the recorded workbooks, in first-seen order, so there
  are as many entries as there are such ids; every entry is a data source and holds
  the payload of the first mention of its id, later mentions leaving it unchanged.
\<close>

theorem data_sources_registered_once_in_first_seen_order:
  assumes "fst (fetch_tableau_workspace_data srv ws log) = Inr wd"
  shows "map fst (data_sources_by_id wd) =
           first_seen (filter truthy (map luid_of (mentions_in (workbooks_by_id wd)))) \<and>
         distinct (map fst (data_sources_by_id wd)) \<and>
         length (data_sources_by_id wd) =
           card {i \<in> luid_of ` set (mentions_in (workbooks_by_id wd)). truthy i} \<and>
         (\<forall>kc \<in> set (data_sources_by_id wd).
            content_type (snd kc) = DATA_SOURCE \<and>
            find (\<lambda>p. luid_of p = fst kc) (mentions_in (workbooks_by_id wd)) =
              Some (properties (snd kc)))"
proof -
  let ?ms = "mentions_in (workbooks_by_id wd)"
  from fetch_snapshot [OF assms]
  have r: "registry (data_sources_by_id wd) ?ms"
    by (simp add: snapshot_inv_def)
  then have k: "map fst (data_sources_by_id wd) = first_seen (filter truthy (map luid_of ?ms))"
    and h: "holds_first_payload DATA_SOURCE (data_sources_by_id wd) ?ms"
    by (simp_all add: registry_def keyed_by_first_seen_def)
  from k have d: "distinct (map fst (data_sources_by_id wd))" by simp
  have "length (map fst (data_sources_by_id wd)) = card (set (filter truthy (map luid_of ?ms)))"
    by (simp only: k length_first_seen)
  moreover have "set (filter truthy (map luid_of ?ms)) = {i \<in> luid_of ` set ?ms. truthy i}"
    by auto
  ultimately have l: "length (data_sources_by_id wd) = card {i \<in> luid_of ` set ?ms. truthy i}"
    by simp
  from k d l h show ?thesis by (simp add: holds_first_payload_def)
qed

theorem data_sources_registered_once_in_first_seen_order_witness:
  "fst (fetch_tableau_workspace_data site acme []) = Inr acme_snapshot \<and>
   first_seen (filter truthy (map luid_of (mentions_in (workbooks_by_id acme_snapshot)))) =
     [JStr ''X'', JStr ''Y''] \<and>
   card {i \<in> luid_of ` set (mentions_in (workbooks_by_id acme_snapshot)). truthy i} = 2"
proof -
  have h: "fst (fetch_tableau_workspace_data site acme []) = Inr acme_snapshot"
    by code_simp
  have k: "map fst (data_sources_by_id acme_snapshot) = [JStr ''X'', JStr ''Y'']"
    by (simp add: acme_snapshot_def)
  have l: "length (data_sources_by_id acme_snapshot) = 2"
    by (simp add: acme_snapshot_def)
  from data_sources_registered_once_in_first_seen_order [OF h] k l h show ?thesis by simp
qed

text \<open>
  C2, as stated, fails for an id that is not null but empty: the sheet mentions one
  published data source, whose id is the empty string, and nothing is registered.
\<close>

theorem empty_id_data_source_is_not_registered:
  "map_sum id data_sources_by_id
     (fst (fetch_tableau_workspace_data (site_serving workbook_blank) acme [])) = Inr [] \<and>
   map_sum id (mentions_in \<circ> workbooks_by_id)
     (fst (fetch_tableau_workspace_data (site_serving workbook_blank) acme [])) =
     Inr [source_blank] \<and>
   luid_of source_blank = JStr [] \<and> JStr [] \<noteq> JNull"
  by code_simp


lemma scan_view_without_luid:
  "map_of d ''luid'' = None \<Longrightarrow> scan_view wid acc (JDict d) = Inl KeyError"
  by (simp add: scan_view_def register_view_def)

lemma for_each_raises:
  assumes "\<And>s. f s x = Inl e"
  shows "\<exists>e'. for_each f s (xs @ x # ys) = Inl e'"
  using assms by (simp add: for_each_append split: sum.splits)

text \<open>
  C3, amended: a sheet without a \<^verbatim>\<open>luid\<close> key raises \<^verbatim>\<open>KeyError\<close> at once, and so does
  the loop over any list of sheets that holds it; a sheet whose \<^verbatim>\<open>luid\<close> is null or
  empty is not recorded and raises nothing. So in the snapshot of a fetch that returns,
  every sheet of a recorded workbook has the key, and the sheets recorded as views are
  exactly those with a truthy id.
\<close>

theorem sheet_without_luid_raises_falsy_luid_is_skipped:
  "(map_of d ''luid'' = None \<longrightarrow>
      scan_view wid acc (JDict d) = Inl KeyError \<and>
      (\<exists>e. for_each (scan_view wid) acc (before @ JDict d # after) = Inl e)) \<and>
   (map_of d ''luid'' = Some i \<and> \<not> truthy i \<longrightarrow>
      register_view wid views (JDict d) = Inr views) \<and>
   (fst (fetch_tableau_workspace_data srv ws log) = Inr wd \<longrightarrow>
      (\<forall>view_data \<in> set (sheets_in (workbooks_by_id wd)).
         is_sheet view_data \<and>
         (luid_of view_data \<in> fst ` set (views_by_id wd) \<longleftrightarrow> truthy (luid_of view_data))))"
proof (intro conjI impI)
  assume "map_of d ''luid'' = None"
  then show "scan_view wid acc (JDict d) = Inl KeyError"
    by (rule scan_view_without_luid)
next
  assume n: "map_of d ''luid'' = None"
  show "\<exists>e. for_each (scan_view wid) acc (before @ JDict d # after) = Inl e"
    by (rule for_each_raises [where e = KeyError]) (rule scan_view_without_luid [OF n])
next
  assume "map_of d ''luid'' = Some i \<and> \<not> truthy i"
  then show "register_view wid views (JDict d) = Inr views"
    by (simp add: register_view_def)
next
  assume h: "fst (fetch_tableau_workspace_data srv ws log) = Inr wd"
  from fetch_snapshot [OF h]
  have s: "\<forall>v \<in> set (sheets_in (workbooks_by_id wd)). is_sheet v"
    and k: "keyed_by_first_seen (views_by_id wd) (sheets_in (workbooks_by_id wd))"
    by (simp_all add: snapshot_inv_def)
  from keyed_set [OF k] s
  show "\<forall>view_data \<in> set (sheets_in (workbooks_by_id wd)).
         is_sheet view_data \<and>
         (luid_of view_data \<in> fst ` set (views_by_id wd) \<longleftrightarrow> truthy (luid_of view_data))"
    by auto
qed

theorem sheet_without_luid_raises_falsy_luid_is_skipped_witness:
  "map_of [(''name'', JStr ''draft'')] ''luid'' = None \<and>
   scan_view (JStr ''w'') ([], []) (JDict [(''name'', JStr ''draft'')]) = Inl KeyError \<and>
   map_of [(''luid'', JNull), (''name'', JStr ''draft'')] ''luid'' = Some JNull \<and>
   \<not> truthy JNull \<and>
   register_view (JStr ''w'') [] sheet_draft = Inr [] \<and>
   fst (fetch_tableau_workspace_data site acme []) = Inr acme_snapshot \<and>
   sheet_A \<in> set (sheets_in (workbooks_by_id acme_snapshot)) \<and>
   is_sheet sheet_A \<and>
   luid_of sheet_A \<in> fst ` set (views_by_id acme_snapshot)"
proof -
  have h1: "map_of [(''name'', JStr ''draft'')] ''luid'' = None" by simp
  have h2: "map_of [(''luid'', JNull), (''name'', JStr ''draft'')] ''luid'' = Some JNull \<and>
      \<not> truthy JNull" by simp
  have h3: "fst (fetch_tableau_workspace_data site acme []) = Inr acme_snapshot"
    by code_simp
  have h4: "sheet_A \<in> set (sheets_in (workbooks_by_id acme_snapshot))"
    by (simp add: acme_snapshot_def sheets_in_def sheets_of_def elements_def workbook_w_def)
  have h5: "truthy (luid_of sheet_A)"
    by (simp add: sheet_A_def luid_of_def)
  note a = sheet_without_luid_raises_falsy_luid_is_skipped
      [of "[(''name'', JStr ''draft'')]" "JStr ''w''" "([], [])" "[]" "[]"
      JNull "[]" site acme "[]" acme_snapshot]
  note b = sheet_without_luid_raises_falsy_luid_is_skipped
      [of "[(''luid'', JNull), (''name'', JStr ''draft'')]" "JStr ''w''" "([], [])"
      "[]" "[]" JNull "[]" site acme "[]" acme_snapshot]
  from a h1 have 1: "scan_view (JStr ''w'') ([], []) (JDict [(''name'', JStr ''draft'')]) =
      Inl KeyError" by blast
  from b h2 have 2: "register_view (JStr ''w'') [] sheet_draft = Inr []"
    unfolding sheet_draft_def by blast
  from a h3 h4 h5 have 3: "is_sheet sheet_A \<and>
      luid_of sheet_A \<in> fst ` set (views_by_id acme_snapshot)" by blast
  from h1 h2 h3 h4 1 2 3 show ?thesis by blast
qed

text \<open>
  C3, as stated, fails: a sheet whose id is null is skipped in silence. The fetch
  returns a snapshot whose workbook has the sheet and whose views are empty.
\<close>

theorem sheet_with_null_id_is_silently_skipped:
  "map_sum id views_by_id
     (fst (fetch_tableau_workspace_data (site_serving workbook_draft) acme [])) = Inr [] \<and>
   map_sum id (sheets_in \<circ> workbooks_by_id)
     (fst (fetch_tableau_workspace_data (site_serving workbook_draft) acme [])) =
     Inr [sheet_draft] \<and>
   getitem sheet_draft ''luid'' = Inr JNull"
  by code_simp



lemma augmented_mentions:
  "augmented bag wid v \<Longrightarrow> mentions_of_view bag = mentions_of_view v"
  by (auto simp: augmented_def mentions_of_view_def embedded_of_def update_conv')

lemma mentions_of_view_subset:
  "v \<in> set (sheets_in wbs) \<Longrightarrow> set (mentions_of_view v) \<subseteq> set (mentions_in wbs)"
  by (auto simp: mentions_in_def)

lemma register_null_data_source:
  "map_of d ''luid'' = Some JNull \<Longrightarrow> register_data_source ds (JDict d) = Inr ds"
  by (simp add: register_data_source_def)

text \<open>
  C8: a published data source whose id is null is skipped without error: registering
  it changes nothing, and a loop over mentions that holds it ends as the loop without
  it. In the snapshot of a fetch that returns no data source is registered under the
  null id; a view whose mentions all have a null id, or that has no mention, has no
  dependency; and the dependencies of a recorded view are exactly the truthy ids it
  mentions.
\<close>

theorem null_data_source_id_is_skipped:
  "(map_of d ''luid'' = Some JNull \<longrightarrow>
      register_data_source ds (JDict d) = Inr ds \<and>
      for_each register_data_source ds (before @ JDict d # after) =
        for_each register_data_source ds (before @ after)) \<and>
   (fst (fetch_tableau_workspace_data srv ws log) = Inr wd \<longrightarrow>
      JNull \<notin> fst ` set (data_sources_by_id wd) \<and>
      (\<forall>view. (\<forall>p \<in> set (mentions_of_view (properties view)). luid_of p = JNull) \<longrightarrow>
          view_dependencies wd view = []) \<and>
      (\<forall>kc \<in> set (views_by_id wd).
          set (view_dependencies wd (snd kc)) =
            {i \<in> luid_of ` set (mentions_of_view (properties (snd kc))). truthy i}))"
proof (intro conjI impI)
  assume "map_of d ''luid'' = Some JNull"
  then show "register_data_source ds (JDict d) = Inr ds"
    by (rule register_null_data_source)
next
  assume n: "map_of d ''luid'' = Some JNull"
  show "for_each register_data_source ds (before @ JDict d # after) =
        for_each register_data_source ds (before @ after)"
    by (simp add: for_each_append register_null_data_source [OF n] split: sum.splits)
next
  assume h: "fst (fetch_tableau_workspace_data srv ws log) = Inr wd"
  let ?wbs = "workbooks_by_id wd" and ?ds = "data_sources_by_id wd"
  from fetch_snapshot [OF h]
  have k: "keyed_by_first_seen ?ds (mentions_in ?wbs)"
    and vf: "views_from (views_by_id wd) ?wbs"
    by (simp_all add: snapshot_inv_def registry_def)
  note keys = keyed_set [OF k]
  from keys show null: "JNull \<notin> fst ` set ?ds" by auto
  then have none: "map_of ?ds JNull = None" by (simp add: map_of_eq_None_iff)
  show "\<forall>view. (\<forall>p \<in> set (mentions_of_view (properties view)). luid_of p = JNull) \<longrightarrow>
          view_dependencies wd view = []"
  proof (intro allI impI)
    fix view :: TableauContentData
    assume a: "\<forall>p \<in> set (mentions_of_view (properties view)). luid_of p = JNull"
    with none have "filter (\<lambda>i. map_of ?ds i \<noteq> None)
        (map luid_of (mentions_of_view (properties view))) = []"
      by (auto simp: filter_empty_conv)
    then show "view_dependencies wd view = []"
      by (simp add: view_dependencies_def)
  qed
  show "\<forall>kc \<in> set (views_by_id wd).
          set (view_dependencies wd (snd kc)) =
            {i \<in> luid_of ` set (mentions_of_view (properties (snd kc))). truthy i}"
  proof
    fix kc assume "kc \<in> set (views_by_id wd)"
    with vf obtain wc v where wc: "wc \<in> set ?wbs"
      and v: "v \<in> set (sheets_of (properties (snd wc)))"
      and a: "augmented (properties (snd kc)) (fst wc) v"
      by (auto simp: views_from_def)
    from sheets_of_subset [OF wc] v have "v \<in> set (sheets_in ?wbs)" by auto
    from mentions_of_view_subset [OF this] augmented_mentions [OF a]
    have sub: "set (mentions_of_view (properties (snd kc))) \<subseteq> set (mentions_in ?wbs)"
      by simp
    have "\<And>i. map_of ?ds i \<noteq> None \<longleftrightarrow> i \<in> fst ` set ?ds"
      by (simp add: map_of_eq_None_iff)
    with keys sub show "set (view_dependencies wd (snd kc)) =
        {i \<in> luid_of ` set (mentions_of_view (properties (snd kc))). truthy i}"
      by (auto simp: view_dependencies_def)
  qed
qed

theorem null_data_source_id_is_skipped_witness:
  "map_of [(''luid'', JNull), (''name'', JStr ''n'')] ''luid'' = Some JNull \<and>
   register_data_source [] source_null = Inr [] \<and>
   for_each register_data_source [] ([] @ source_null # [source_X]) =
     for_each register_data_source [] ([] @ [source_X]) \<and>
   fst (fetch_tableau_workspace_data (site_serving workbook_c) acme []) = Inr snapshot_c \<and>
   JNull \<notin> fst ` set (data_sources_by_id snapshot_c) \<and>
   {i \<in> luid_of ` set (mentions_of_view (properties (snd (hd (views_by_id snapshot_c))))).
      truthy i} = {JStr ''X''}"
proof -
  have h1: "map_of [(''luid'', JNull), (''name'', JStr ''n'')] ''luid'' = Some JNull"
    by simp
  have h2: "fst (fetch_tableau_workspace_data (site_serving workbook_c) acme []) =
      Inr snapshot_c"
    by code_simp
  have m: "hd (views_by_id snapshot_c) \<in> set (views_by_id snapshot_c)"
    by (simp add: snapshot_c_def)
  have v: "view_dependencies snapshot_c (snd (hd (views_by_id snapshot_c))) = [JStr ''X'']"
    by code_simp
  note t = null_data_source_id_is_skipped [of "[(''luid'', JNull), (''name'', JStr ''n'')]" "[]" "[]" "[source_X]"
      "site_serving workbook_c" acme "[]" snapshot_c]
  from t h1 have a: "register_data_source [] source_null = Inr [] \<and>
      for_each register_data_source [] ([] @ source_null # [source_X]) =
        for_each register_data_source [] ([] @ [source_X])"
    unfolding source_null_def by blast
  from t h2 have b: "JNull \<notin> fst ` set (data_sources_by_id snapshot_c)"
    by blast
  from t h2 m have "set (view_dependencies snapshot_c (snd (hd (views_by_id snapshot_c)))) =
      {i \<in> luid_of ` set (mentions_of_view (properties (snd (hd (views_by_id snapshot_c))))).
         truthy i}"
    by blast
  with v have c: "{i \<in> luid_of `
      set (mentions_of_view (properties (snd (hd (views_by_id snapshot_c))))). truthy i} =
      {JStr ''X''}"
    by simp
  from h1 h2 a b c show ?thesis by blast
qed

text \<open>
  C10: every view of the snapshot of a fetch that returns is of type \<^verbatim>\<open>VIEW\<close>, and
  its properties are a sheet of a recorded workbook, the sheet that carries the view's
  id, with the entry \<^verbatim>\<open>workbook\<close> set to \<^verbatim>\<open>{"luid": workbook_id}\<close> for that workbook's id;
  every other key reads as in the sheet.
\<close>

theorem view_properties_are_sheet_with_workbook_id:
  assumes "fst (fetch_tableau_workspace_data srv ws log) = Inr wd"
    and "(view_id, view) \<in> set (views_by_id wd)"
  shows "\<exists>workbook_id workbook d.
           (workbook_id, workbook) \<in> set (workbooks_by_id wd) \<and>
           JDict d \<in> set (sheets_of (properties workbook)) \<and>
           map_of d ''luid'' = Some view_id \<and>
           content_type view = VIEW \<and>
           properties view =
             JDict (AList.update ''workbook'' (JDict [(''luid'', workbook_id)]) d) \<and>
           getitem (properties view) ''workbook'' = Inr (JDict [(''luid'', workbook_id)]) \<and>
           (\<forall>k. k \<noteq> ''workbook'' \<longrightarrow> getitem (properties view) k = getitem (JDict d) k)"
proof -
  let ?wbs = "workbooks_by_id wd"
  from fetch_snapshot [OF assms(1)]
  have vf: "views_from (views_by_id wd) ?wbs"
    and sh: "\<forall>v \<in> set (sheets_in ?wbs). is_sheet v"
    by (simp_all add: snapshot_inv_def)
  from vf assms(2) obtain wc v where wc: "wc \<in> set ?wbs"
    and v: "v \<in> set (sheets_of (properties (snd wc)))"
    and l: "luid_of v = view_id" and t: "content_type view = VIEW"
    and a: "augmented (properties view) (fst wc) v"
    by (fastforce simp: views_from_def)
  from a obtain d where d: "v = JDict d"
    and p: "properties view = JDict (AList.update ''workbook'' (JDict [(''luid'', fst wc)]) d)"
    by (auto simp: augmented_def)
  from sheets_of_subset [OF wc] v sh have "is_sheet v" by auto
  with d l have m: "map_of d ''luid'' = Some view_id"
    by (auto simp: is_sheet_def luid_of_def)
  from p have g: "getitem (properties view) ''workbook'' = Inr (JDict [(''luid'', fst wc)])"
    by (simp add: update_conv')
  from p have o: "\<forall>k. k \<noteq> ''workbook'' \<longrightarrow> getitem (properties view) k = getitem (JDict d) k"
    by (simp add: update_conv')
  from wc have "(fst wc, snd wc) \<in> set ?wbs" by simp
  with v d m t p g o show ?thesis by blast
qed

theorem view_properties_are_sheet_with_workbook_id_witness:
  "fst (fetch_tableau_workspace_data site acme []) = Inr acme_snapshot \<and>
   (JStr ''A'', snd (hd (views_by_id acme_snapshot))) \<in> set (views_by_id acme_snapshot) \<and>
   (\<exists>workbook_id workbook d.
      (workbook_id, workbook) \<in> set (workbooks_by_id acme_snapshot) \<and>
      JDict d \<in> set (sheets_of (properties workbook)) \<and>
      map_of d ''luid'' = Some (JStr ''A'') \<and>
      properties (snd (hd (views_by_id acme_snapshot))) =
        JDict (AList.update ''workbook'' (JDict [(''luid'', workbook_id)]) d))"
proof -
  have h1: "fst (fetch_tableau_workspace_data site acme []) = Inr acme_snapshot"
    by code_simp
  have h2: "(JStr ''A'', snd (hd (views_by_id acme_snapshot))) \<in> set (views_by_id acme_snapshot)"
    by (simp add: acme_snapshot_def)
  from view_properties_are_sheet_with_workbook_id [OF h1 h2] h1 h2 show ?thesis by blast
qed


end
